theory Spec2Isabelle
  imports Complex_Main "HOL-Library.Word" "HOL-Library.Monad_Syntax"
begin

section \<open>JavaScript values\<close>

text \<open>
  The program is the browser script \<^verbatim>\<open>editor/static/editor/js/workspace.js\<close>.
  A JavaScript string is a sequence of 16-bit code units. ASCII literals of the source
  are written \<open>js ''...''\<close>; the source's Korean literals are written out as code units.
\<close>

type_synonym jsstring = "16 word list"

definition js :: "string \<Rightarrow> jsstring" where
  "js s = map of_char s"

text \<open>
  A JavaScript number: a finite double, one of the two infinities, or NaN. A finite double
  is a real number; \<open>Math.round\<close>, \<open>Math.min\<close> and \<open>Math.max\<close> are exact on doubles,
  and the two zeros are not told apart by anything below.
\<close>

datatype jsnum = NaN | PosInf | NegInf | Fin real

text \<open>
  The values that reach \<open>Number\<close> in this script: a control's \<open>value\<close> (a string, or
  undefined when the control is missing), a number the script computed, or a primitive
  of the default theme's JSON.
\<close>

datatype jsval = JUndefined | JNull | JBool bool | JNum jsnum | JStr jsstring

fun isFinite :: "jsnum \<Rightarrow> bool" where
  "isFinite (Fin x) = True"
| "isFinite _ = False"

fun isNaN :: "jsnum \<Rightarrow> bool" where
  "isNaN NaN = True"
| "isNaN _ = False"

text \<open>\<open>Math.round\<close>: the nearest integer, a tie going up.\<close>

fun Math_round :: "jsnum \<Rightarrow> jsnum" where
  "Math_round (Fin x) = Fin (of_int \<lfloor>x + 1 / 2\<rfloor>)"
| "Math_round n = n"

fun Math_max :: "jsnum \<Rightarrow> jsnum \<Rightarrow> jsnum" where
  "Math_max NaN y = NaN"
| "Math_max x NaN = NaN"
| "Math_max PosInf y = PosInf"
| "Math_max x PosInf = PosInf"
| "Math_max NegInf y = y"
| "Math_max x NegInf = x"
| "Math_max (Fin x) (Fin y) = Fin (max x y)"

fun Math_min :: "jsnum \<Rightarrow> jsnum \<Rightarrow> jsnum" where
  "Math_min NaN y = NaN"
| "Math_min x NaN = NaN"
| "Math_min NegInf y = NegInf"
| "Math_min x NegInf = NegInf"
| "Math_min PosInf y = y"
| "Math_min x PosInf = x"
| "Math_min (Fin x) (Fin y) = Fin (min x y)"

text \<open>The comparison \<open>x < y\<close> of two numbers: false as soon as one of them is NaN.\<close>

fun js_less :: "jsnum \<Rightarrow> jsnum \<Rightarrow> bool" where
  "js_less NaN y = False"
| "js_less x NaN = False"
| "js_less x NegInf = False"
| "js_less PosInf y = False"
| "js_less NegInf y = True"
| "js_less x PosInf = True"
| "js_less (Fin x) (Fin y) = (x < y)"

text \<open>
  \<open>Number(value)\<close>. The conversion of a string (the StringToNumber grammar with its
  rounding to a double) is a built-in of the language and is a parameter here.
\<close>

fun Number :: "(jsstring \<Rightarrow> jsnum) \<Rightarrow> jsval \<Rightarrow> jsnum" where
  "Number s2n JUndefined = NaN"
| "Number s2n JNull = Fin 0"
| "Number s2n (JBool b) = Fin (if b then 1 else 0)"
| "Number s2n (JNum n) = n"
| "Number s2n (JStr s) = s2n s"

text \<open>\<open>String(i)\<close> for a loop index or a status code: its decimal digits.\<close>

fun String_nat :: "nat \<Rightarrow> jsstring" where
  "String_nat n =
     (if n < 10 then [of_nat (48 + n)]
      else String_nat (n div 10) @ [of_nat (48 + n mod 10)])"

declare String_nat.simps [simp del]

text \<open>
  \<open>String.prototype.trim\<close> removes the WhiteSpace and LineTerminator code units of
  ECMAScript from both ends.
\<close>

definition whitespace_units :: "16 word list" where
  "whitespace_units =
     [0x9, 0xA, 0xB, 0xC, 0xD, 0x20, 0xA0, 0x1680,
      0x2000, 0x2001, 0x2002, 0x2003, 0x2004, 0x2005, 0x2006, 0x2007, 0x2008, 0x2009, 0x200A,
      0x2028, 0x2029, 0x202F, 0x205F, 0x3000, 0xFEFF]"

definition is_whitespace :: "16 word \<Rightarrow> bool" where
  "is_whitespace c = (c \<in> set whitespace_units)"

definition trim :: "jsstring \<Rightarrow> jsstring" where
  "trim s = rev (dropWhile is_whitespace (rev (dropWhile is_whitespace s)))"

text \<open>\<open>xs[i]\<close>: \<open>undefined\<close> out of range.\<close>

definition index :: "'a list \<Rightarrow> nat \<Rightarrow> 'a option" where
  "index xs i = (if i < length xs then Some (xs ! i) else None)"

section \<open>The page the script is loaded in\<close>

text \<open>
  The parsed \<open>defaultTheme\<close> (the fields of it that the ordered-list code reads; the
  digit array is \<open>None\<close> when \<open>Array.isArray\<close> fails and holds strings otherwise, as the
  page's interface has it; a string field is \<open>None\<close> when it is null or undefined), the
  two endpoint URLs (only their truthiness is read), and the built-in string-to-number
  conversion.
\<close>

record default_theme =
  dt_customOrderedDigits :: "jsstring list option"
  dt_customOrderedBase :: jsval
  dt_orderedMarkerPrefix :: "jsstring option"
  dt_orderedMarkerSuffix :: "jsstring option"

record env =
  StringToNumber :: "jsstring \<Rightarrow> jsnum"
  defaultTheme :: default_theme
  urls_preview :: bool
  urls_pdf :: bool

section \<open>The ordered-list base\<close>

definition parseNumberOr :: "env \<Rightarrow> jsval \<Rightarrow> jsnum \<Rightarrow> jsnum" where
  "parseNumberOr env v fallback =
     (let parsed = Number (StringToNumber env) v
      in if isFinite parsed then parsed else fallback)"

definition clamp :: "jsnum \<Rightarrow> jsnum \<Rightarrow> jsnum \<Rightarrow> jsnum" where
  "clamp v mn mx = Math_min mx (Math_max mn v)"

definition defaultOrderedDigits :: "env \<Rightarrow> jsstring list" where
  "defaultOrderedDigits env =
     (case dt_customOrderedDigits (defaultTheme env) of
        Some xs \<Rightarrow> xs
      | None \<Rightarrow> [js ''0'', js ''1'', js ''2''])"

text \<open>\<open>defaultOrderedDigits.length || 3\<close>: a length of 0 is falsy.\<close>

definition DEFAULT_ORDERED_BASE :: "env \<Rightarrow> jsnum" where
  "DEFAULT_ORDERED_BASE env =
     clamp
       (Math_round
          (parseNumberOr env (dt_customOrderedBase (defaultTheme env))
             (if length (defaultOrderedDigits env) = 0 then Fin 3
              else Fin (real (length (defaultOrderedDigits env))))))
       (Fin 2) (Fin 10)"

definition sanitizeOrderedBase :: "env \<Rightarrow> jsval \<Rightarrow> jsnum" where
  "sanitizeOrderedBase env v =
     (let parsed = Math_round (parseNumberOr env v (DEFAULT_ORDERED_BASE env))
      in clamp (if isNaN parsed then DEFAULT_ORDERED_BASE env else parsed) (Fin 2) (Fin 10))"

section \<open>The form controls\<close>

text \<open>
  \<open>elements\<close>: the form controls that the theme is read from. An element that is missing
  from the page (\<open>null\<close>) is \<open>None\<close>; a present one carries what the script reads from
  it: the \<open>value\<close> of an input, the \<open>checked\<close> flag of a checkbox, the text inputs of a
  list in document order. The base control holds either the string the user typed or the
  number the script assigned (the DOM stores its string form, which converts back to the
  same number). A text input drops the line feeds and carriage returns of a string
  that is assigned to its \<open>value\<close>; a \<open>placeholder\<close> is kept as assigned.
\<close>

definition strip_newlines :: "jsstring \<Rightarrow> jsstring" where
  "strip_newlines v = filter (\<lambda>c. c \<noteq> 0xA \<and> c \<noteq> 0xD) v"

record ordered_row =
  placeholder :: jsstring
  row_value :: jsstring

record elements =
  el_title :: "jsstring option"
  el_markdown :: "jsstring option"
  el_toggleCustomBullets :: "bool option"
  el_bulletSequenceList :: "jsstring list option"
  el_toggleCustomOrdered :: "bool option"
  el_orderedSequenceList :: "ordered_row list option"
  el_customOrderedBase :: "jsval option"
  el_customOrderedPrefix :: "jsstring option"
  el_customOrderedSuffix :: "jsstring option"

section \<open>The bullet sequence and the ordered digit table\<close>

definition readBulletSequence :: "elements \<Rightarrow> jsstring list" where
  "readBulletSequence els =
     (case el_bulletSequenceList els of
        None \<Rightarrow> []
      | Some inputs \<Rightarrow> filter (\<lambda>v. length v > 0) (map trim inputs))"

text \<open>
  The body of the loop of \<open>renderOrderedSequence\<close>: the row appended at index \<open>i\<close>,
  with the value its text input keeps.
\<close>

definition render_row :: "env \<Rightarrow> jsstring list \<Rightarrow> nat \<Rightarrow> ordered_row" where
  "render_row env vals i =
     \<lparr>placeholder =
        (case index (defaultOrderedDigits env) i of Some d \<Rightarrow> d | None \<Rightarrow> String_nat i),
      row_value =
        strip_newlines
          (case index vals i of
             Some v \<Rightarrow> v
           | None \<Rightarrow> (case index (defaultOrderedDigits env) i of Some d \<Rightarrow> d | None \<Rightarrow> []))\<rparr>"

text \<open>
  The loop, from index \<open>i\<close> on, with the rows appended so far. The loop test compares
  the index with a number, so the function is partial: it has no value when the loop
  does not end.
\<close>

partial_function (option) render_rows ::
  "env \<Rightarrow> jsstring list \<Rightarrow> jsnum \<Rightarrow> nat \<Rightarrow> ordered_row list \<Rightarrow> ordered_row list option"
where
  "render_rows env vals targetBase i rows =
     (if js_less (Fin (real i)) targetBase then
        render_rows env vals targetBase (i + 1) (rows @ [render_row env vals i])
      else Some rows)"

definition renderOrderedSequence ::
  "env \<Rightarrow> jsval \<Rightarrow> jsstring list \<Rightarrow> elements \<Rightarrow> elements option"
where
  "renderOrderedSequence env baseValue vals els =
     (case el_orderedSequenceList els of
        None \<Rightarrow> Some els
      | Some old \<Rightarrow>
          do {
            rows \<leftarrow> render_rows env vals (sanitizeOrderedBase env baseValue) 0 [];
            Some (els\<lparr>el_orderedSequenceList := Some rows\<rparr>)
          })"

definition readOrderedSequence :: "elements \<Rightarrow> jsstring list" where
  "readOrderedSequence els =
     (case el_orderedSequenceList els of
        None \<Rightarrow> []
      | Some rows \<Rightarrow> map (\<lambda>r. trim (row_value r)) rows)"

text \<open>
  The body of the loop of \<open>ensureOrderedDigits\<close>: the digit pushed at index \<open>i\<close>.
  \<open>defaultOrderedDigits[i]\<close> is truthy when it exists and is not the empty string.
\<close>

definition ensure_digit :: "env \<Rightarrow> jsstring list \<Rightarrow> nat \<Rightarrow> jsstring" where
  "ensure_digit env vals i =
     (let candidate = trim (case index vals i of Some v \<Rightarrow> v | None \<Rightarrow> [])
      in if candidate \<noteq> [] then candidate
         else (case index (defaultOrderedDigits env) i of
                 Some d \<Rightarrow> if d \<noteq> [] then d else String_nat i
               | None \<Rightarrow> String_nat i))"

partial_function (option) ensure_loop ::
  "env \<Rightarrow> jsstring list \<Rightarrow> jsnum \<Rightarrow> nat \<Rightarrow> jsstring list \<Rightarrow> jsstring list option"
where
  "ensure_loop env vals base i digits =
     (if js_less (Fin (real i)) base then
        ensure_loop env vals base (i + 1) (digits @ [ensure_digit env vals i])
      else Some digits)"

definition ensureOrderedDigits :: "env \<Rightarrow> jsstring list \<Rightarrow> jsnum \<Rightarrow> jsstring list option" where
  "ensureOrderedDigits env vals base = ensure_loop env vals base 0 []"

section \<open>The theme\<close>

text \<open>
  The list-marker fields of the theme and its title. The seventeen scalar style fields
  (\<open>fontFamily\<close> to \<open>cardShadow\<close>) are each copied from one control, with the default theme
  as fallback; nothing below reads them and they are not part of the record.
\<close>

record theme =
  title :: jsstring
  useCustomBullets :: bool
  customBulletSequence :: "jsstring list"
  useCustomOrdered :: bool
  customOrderedDigits :: "jsstring list"
  customOrderedBase :: nat
  orderedMarkerPrefix :: jsstring
  orderedMarkerSuffix :: jsstring

text \<open>\<open>gatherTheme\<close> returns the theme and leaves the sanitized base in the base control.\<close>

definition gatherTheme :: "env \<Rightarrow> elements \<Rightarrow> (theme \<times> elements) option" where
  "gatherTheme env els =
     (let bulletSequence = readBulletSequence els;
          orderedBase =
            sanitizeOrderedBase env
              (case el_customOrderedBase els of None \<Rightarrow> JUndefined | Some v \<Rightarrow> v);
          els' =
            (case el_customOrderedBase els of
               None \<Rightarrow> els
             | Some v \<Rightarrow> els\<lparr>el_customOrderedBase := Some (JNum orderedBase)\<rparr>);
          orderedDigitsRaw = readOrderedSequence els'
      in do {
        orderedDigits \<leftarrow> ensureOrderedDigits env orderedDigitsRaw orderedBase;
        Some
          (\<lparr>title =
              (case el_title els' of
                 None \<Rightarrow> js ''Untitled''
               | Some v \<Rightarrow> if trim v \<noteq> [] then trim v else js ''Untitled''),
            useCustomBullets =
              ((case el_toggleCustomBullets els' of None \<Rightarrow> False | Some c \<Rightarrow> c)
               \<and> length bulletSequence > 0),
            customBulletSequence = bulletSequence,
            useCustomOrdered =
              (case el_toggleCustomOrdered els' of None \<Rightarrow> False | Some c \<Rightarrow> c),
            customOrderedDigits = orderedDigits,
            customOrderedBase = length orderedDigits,
            orderedMarkerPrefix =
              (case el_customOrderedPrefix els' of
                 Some v \<Rightarrow> trim v
               | None \<Rightarrow>
                   (case dt_orderedMarkerPrefix (defaultTheme env) of
                      Some p \<Rightarrow> p
                    | None \<Rightarrow> [])),
            orderedMarkerSuffix =
              (case el_customOrderedSuffix els' of
                 Some v \<Rightarrow> trim v
               | None \<Rightarrow>
                   (case dt_orderedMarkerSuffix (defaultTheme env) of
                      Some p \<Rightarrow> p
                    | None \<Rightarrow> js ''.''))\<rparr>,
           els')
      })"

section \<open>The script's state and the browser around it\<close>

text \<open>
  A \<open>fetch\<close> call that was issued and whose continuation is suspended: for a preview the
  serial the continuation captured, for an export the captured result of
  \<open>toggleLoading(true)\<close> (whether it is an element), each with the request body.
\<close>

record body =
  body_markdown :: jsstring
  body_theme :: theme
  body_title :: jsstring

datatype fetch = PreviewFetch nat body | PdfFetch bool body

datatype variant = VIdle | VLoading | VError

text \<open>
  \<open>sys\<close>: the module variables of the script (\<open>state.theme\<close>, \<open>state.isPreviewDirty\<close>,
  \<open>previewTimer\<close>, \<open>activePreviewSerial\<close>), the controls, the elements the script writes
  to (\<open>None\<close> when missing: the text of the style element, the markup of the preview, the
  text and variant of the status line, the \<open>disabled\<close> attribute of the download button,
  whether the loading template has a first child), and the browser: a clock in
  milliseconds, the pending timers (identifier and due time; every timer of the script
  calls \<open>runPreview\<close>), the fetch calls issued, the document title, the number of
  \<open>.loading-overlay\<close> elements in the body, the alerts shown, the console errors and the
  file names of the downloads started. The handlers of the reset and palette buttons are
  not modelled.
\<close>

record sys =
  elements :: elements
  state_theme :: theme
  isPreviewDirty :: bool
  previewTimer :: "nat option"
  activePreviewSerial :: nat
  previewStyle :: "jsstring option"
  previewOutput :: "jsstring option"
  previewStatus :: "(jsstring \<times> variant) option"
  btnDownload :: "bool option"
  loadingTemplate :: bool
  clock :: nat
  pending_timers :: "(nat \<times> nat) list"
  next_timer_id :: nat
  fetches :: "fetch list"
  document_title :: jsstring
  overlays :: nat
  alerts :: "jsstring list"
  console_errors :: "jsstring list"
  downloads :: "jsstring list"

definition updateStatus :: "jsstring \<Rightarrow> variant \<Rightarrow> sys \<Rightarrow> sys" where
  "updateStatus text v s =
     (case previewStatus s of
        None \<Rightarrow> s
      | Some old \<Rightarrow> s\<lparr>previewStatus := Some (text, v)\<rparr>)"

subsection \<open>Scheduling\<close>

definition clearTimeout :: "nat option \<Rightarrow> sys \<Rightarrow> sys" where
  "clearTimeout tid s =
     (case tid of
        None \<Rightarrow> s
      | Some i \<Rightarrow> s\<lparr>pending_timers := filter (\<lambda>(j, due). j \<noteq> i) (pending_timers s)\<rparr>)"

definition setTimeout :: "nat \<Rightarrow> sys \<Rightarrow> sys \<times> nat" where
  "setTimeout delay s =
     (s\<lparr>pending_timers := pending_timers s @ [(next_timer_id s, clock s + delay)],
        next_timer_id := next_timer_id s + 1\<rparr>,
      next_timer_id s)"

definition schedulePreview :: "bool \<Rightarrow> sys \<Rightarrow> sys" where
  "schedulePreview immediate s =
     (let s1 = s\<lparr>isPreviewDirty := True\<rparr>;
          delay = (if immediate then 0 else 280);
          s2 = clearTimeout (previewTimer s1) s1;
          (s3, tid) = setTimeout delay s2
      in s3\<lparr>previewTimer := Some tid\<rparr>)"

subsection \<open>The preview\<close>

definition msg_rendering :: jsstring where
  "msg_rendering = [0xB80C, 0xB354, 0xB9C1, 0x20, 0xC911, 0x2E, 0x2E, 0x2E]"

definition msg_applied :: jsstring where
  "msg_applied = [0xC2E4, 0xC2DC, 0xAC04, 0x20, 0xBC18, 0xC601, 0x20, 0xC644, 0xB8CC]"

definition msg_preview_error :: jsstring where
  "msg_preview_error = [0xBBF8, 0xB9AC, 0xBCF4, 0xAE30, 0x20, 0xC624, 0xB958]"

definition msg_preview_failed :: "nat \<Rightarrow> jsstring" where
  "msg_preview_failed status =
     [0xBBF8, 0xB9AC, 0xBCF4, 0xAE30, 0x20, 0xC694, 0xCCAD, 0x20, 0xC2E4, 0xD328, 0x20, 0x28]
     @ String_nat status @ js '')''"

definition title_suffix :: jsstring where
  "title_suffix = [0x20, 0xB7, 0x20] @ js ''Markdown Styler''"

text \<open>\<open>runPreview\<close> up to its first \<open>await\<close>: the \<open>fetch\<close> call is issued.\<close>

definition runPreview :: "env \<Rightarrow> sys \<Rightarrow> sys option" where
  "runPreview env s =
     (if \<not> urls_preview env then Some s
      else do {
        (th, els') \<leftarrow> gatherTheme env (elements s);
        let s1 = s\<lparr>elements := els', state_theme := th\<rparr>;
        let markdown = (case el_markdown (elements s1) of None \<Rightarrow> [] | Some v \<Rightarrow> v);
        let s2 = updateStatus msg_rendering VLoading s1;
        let serial = activePreviewSerial s2 + 1;
        let s3 = s2\<lparr>activePreviewSerial := serial\<rparr>;
        Some (s3\<lparr>fetches := fetches s3 @
                [PreviewFetch serial
                   \<lparr>body_markdown = markdown, body_theme = state_theme s3,
                    body_title = title (state_theme s3)\<rparr>]\<rparr>)
      })"

text \<open>
  What comes back for a preview request: \<open>fetch\<close> rejects (with the message of the
  error; a response that is not ok and whose body is the JSON \<open>null\<close> ends the same way,
  as reading \<open>payload.error\<close> throws); a response that is not ok, with its status and the
  \<open>error\<close> string of its JSON body (\<open>None\<close> when the field is absent, null or undefined,
  or the body does not parse); an ok response whose body is not JSON, so that
  \<open>response.json()\<close> rejects (with the message of the error); an ok response whose body
  is the JSON \<open>null\<close>, on which reading \<open>data.css\<close> or \<open>data.html\<close> throws (with the
  message of that error); an ok response with the \<open>html\<close> and \<open>css\<close> fields of its body
  (\<open>None\<close> when null or undefined).
\<close>

datatype preview_outcome =
    PreviewRejected jsstring
  | PreviewNotOk nat "jsstring option"
  | PreviewBadBody jsstring
  | PreviewNullBody jsstring
  | PreviewOk "jsstring option" "jsstring option"

text \<open>The \<open>catch\<close> block of \<open>runPreview\<close>.\<close>

definition preview_catch :: "jsstring \<Rightarrow> sys \<Rightarrow> sys" where
  "preview_catch message s =
     updateStatus (if message \<noteq> [] then message else msg_preview_error) VError
       (s\<lparr>console_errors := console_errors s @ [message]\<rparr>)"

text \<open>
  The rest of \<open>runPreview\<close>, run when the response and its body have arrived, for the
  call that captured \<open>serial\<close>. The state is read only after the last \<open>await\<close>.
\<close>

definition runPreview_resume :: "nat \<Rightarrow> preview_outcome \<Rightarrow> sys \<Rightarrow> sys" where
  "runPreview_resume serial outcome s =
     (case outcome of
        PreviewRejected message \<Rightarrow> preview_catch message s
      | PreviewNotOk status err \<Rightarrow>
          preview_catch
            (case err of
               Some e \<Rightarrow> if e \<noteq> [] then e else msg_preview_failed status
             | None \<Rightarrow> msg_preview_failed status) s
      | PreviewBadBody message \<Rightarrow> preview_catch message s
      | PreviewNullBody message \<Rightarrow>
          if serial \<noteq> activePreviewSerial s then s
          else if previewStyle s \<noteq> None \<or> previewOutput s \<noteq> None
          then preview_catch message s
          else
            (let s3 = s\<lparr>document_title := title (state_theme s) @ title_suffix\<rparr>;
                 s4 = updateStatus msg_applied VIdle s3
             in s4\<lparr>isPreviewDirty := False\<rparr>)
      | PreviewOk html css \<Rightarrow>
          if serial \<noteq> activePreviewSerial s then s
          else
            (let s1 = (case previewStyle s of
                         None \<Rightarrow> s
                       | Some old \<Rightarrow>
                           s\<lparr>previewStyle := Some (case css of None \<Rightarrow> [] | Some c \<Rightarrow> c)\<rparr>);
                 s2 = (case previewOutput s1 of
                         None \<Rightarrow> s1
                       | Some old \<Rightarrow>
                           s1\<lparr>previewOutput := Some (case html of None \<Rightarrow> [] | Some h \<Rightarrow> h)\<rparr>);
                 s3 = s2\<lparr>document_title := title (state_theme s2) @ title_suffix\<rparr>;
                 s4 = updateStatus msg_applied VIdle s3
             in s4\<lparr>isPreviewDirty := False\<rparr>))"

subsection \<open>The export\<close>

definition msg_pdf_error :: jsstring where
  "msg_pdf_error =
     js ''PDF'' @ [0xB97C, 0x20, 0xC0DD, 0xC131, 0xD560, 0x20, 0xC218, 0x20,
                   0xC5C6, 0xC2B5, 0xB2C8, 0xB2E4, 0x2E]"

definition msg_pdf_failed :: "nat \<Rightarrow> jsstring" where
  "msg_pdf_failed status =
     js ''PDF '' @ [0xC0DD, 0xC131, 0x20, 0xC2E4, 0xD328, 0x20, 0x28]
     @ String_nat status @ js '')''"

text \<open>\<open>toggleLoading\<close>, with whether it returns an element.\<close>

definition toggleLoading :: "bool \<Rightarrow> sys \<Rightarrow> sys \<times> bool" where
  "toggleLoading isLoading s =
     (let existing = (overlays s > 0)
      in if isLoading then
           (if existing then (s, True)
            else if \<not> loadingTemplate s then (s, False)
            else (s\<lparr>overlays := overlays s + 1\<rparr>, True))
         else
           (if existing then (s\<lparr>overlays := overlays s - 1\<rparr>, False) else (s, False)))"

text \<open>\<open>downloadPdf\<close> up to its first \<open>await\<close>.\<close>

definition downloadPdf :: "env \<Rightarrow> sys \<Rightarrow> sys option" where
  "downloadPdf env s =
     (if \<not> urls_pdf env then Some s
      else do {
        (th, els') \<leftarrow> gatherTheme env (elements s);
        let s1 = s\<lparr>elements := els', state_theme := th\<rparr>;
        let markdown = (case el_markdown (elements s1) of None \<Rightarrow> [] | Some v \<Rightarrow> v);
        let (s2, overlay) = toggleLoading True s1;
        let s3 = (case btnDownload s2 of
                    None \<Rightarrow> s2
                  | Some old \<Rightarrow> s2\<lparr>btnDownload := Some True\<rparr>);
        Some (s3\<lparr>fetches := fetches s3 @
                [PdfFetch overlay
                   \<lparr>body_markdown = markdown, body_theme = state_theme s3,
                    body_title = title (state_theme s3)\<rparr>]\<rparr>)
      })"

text \<open>
  What comes back for an export request: \<open>fetch\<close> rejects (or a response that is not ok
  has the JSON body \<open>null\<close>); a response that is not ok (status, \<open>error\<close> string); an ok
  response whose body cannot be read (the message of the error); an ok response with its
  blob, together with what \<open>new Date().toISOString()\<close> gives at that moment.
\<close>

datatype pdf_outcome =
    PdfRejected jsstring
  | PdfNotOk nat "jsstring option"
  | PdfBadBody jsstring
  | PdfBlob jsstring

text \<open>The \<open>catch\<close> and \<open>finally\<close> blocks of \<open>downloadPdf\<close>.\<close>

definition pdf_catch :: "jsstring \<Rightarrow> sys \<Rightarrow> sys" where
  "pdf_catch message s =
     s\<lparr>console_errors := console_errors s @ [message],
        alerts := alerts s @ [if message \<noteq> [] then message else msg_pdf_error]\<rparr>"

definition pdf_finally :: "bool \<Rightarrow> sys \<Rightarrow> sys" where
  "pdf_finally overlay s =
     (let s1 = (if overlay then fst (toggleLoading False s) else s)
      in case btnDownload s1 of
           None \<Rightarrow> s1
         | Some old \<Rightarrow> s1\<lparr>btnDownload := Some False\<rparr>)"

definition downloadPdf_resume :: "bool \<Rightarrow> pdf_outcome \<Rightarrow> sys \<Rightarrow> sys" where
  "downloadPdf_resume overlay outcome s =
     pdf_finally overlay
       (case outcome of
          PdfRejected message \<Rightarrow> pdf_catch message s
        | PdfNotOk status err \<Rightarrow>
            pdf_catch
              (case err of
                 Some e \<Rightarrow> if e \<noteq> [] then e else msg_pdf_failed status
               | None \<Rightarrow> msg_pdf_failed status) s
        | PdfBadBody message \<Rightarrow> pdf_catch message s
        | PdfBlob stamp \<Rightarrow>
            (let timestamp = map (\<lambda>c. if c = 0x3A \<or> c = 0x2E then 0x2D else c) stamp
             in s\<lparr>downloads := downloads s @
                   [(if title (state_theme s) \<noteq> [] then title (state_theme s)
                     else js ''Document'')
                    @ js ''_'' @ timestamp @ js ''.pdf'']\<rparr>))"

subsection \<open>Events\<close>

text \<open>
  The timers due by time \<open>t\<close> fire in the order of their due times, each calling
  \<open>runPreview\<close>, which sets no timer and does not read the clock.
\<close>

fun fire_timers :: "env \<Rightarrow> (nat \<times> nat) list \<Rightarrow> sys \<Rightarrow> sys option" where
  "fire_timers env [] s = Some s"
| "fire_timers env (t # ts) s = do { s' \<leftarrow> runPreview env s; fire_timers env ts s' }"

definition elapse :: "env \<Rightarrow> nat \<Rightarrow> sys \<Rightarrow> sys option" where
  "elapse env t s =
     fire_timers env
       (sort_key snd (filter (\<lambda>(i, due). due \<le> t) (pending_timers s)))
       (s\<lparr>pending_timers := filter (\<lambda>(i, due). \<not> due \<le> t) (pending_timers s),
          clock := max t (clock s)\<rparr>)"

text \<open>
  What can happen to the page: the user changes the controls; a handler calls
  \<open>schedulePreview\<close>; time passes until the clock shows \<open>t\<close>; the outcome of a preview
  request arrives; the download button is clicked (a disabled button takes no click);
  the outcome of an export request arrives.
\<close>

datatype event =
    Edit elements
  | SchedulePreview bool
  | Elapse nat
  | PreviewResponse nat preview_outcome
  | DownloadClick
  | PdfResponse bool pdf_outcome

fun step :: "env \<Rightarrow> event \<Rightarrow> sys \<Rightarrow> sys option" where
  "step env (Edit els) s = Some (s\<lparr>elements := els\<rparr>)"
| "step env (SchedulePreview immediate) s = Some (schedulePreview immediate s)"
| "step env (Elapse t) s = elapse env t s"
| "step env (PreviewResponse serial outcome) s = Some (runPreview_resume serial outcome s)"
| "step env DownloadClick s = (if btnDownload s = Some False then downloadPdf env s else Some s)"
| "step env (PdfResponse overlay outcome) s = Some (downloadPdf_resume overlay outcome s)"

fun run :: "env \<Rightarrow> event list \<Rightarrow> sys \<Rightarrow> sys option" where
  "run env [] s = Some s"
| "run env (e # es) s = do { s' \<leftarrow> step env e s; run env es s' }"


text \<open>
  Every pending timer is the one \<open>previewTimer\<close> names, and the identifiers handed out
  are fresh.
\<close>

definition timers_ok :: "sys \<Rightarrow> bool" where
  "timers_ok s =
     (list_all (\<lambda>(i, due). previewTimer s = Some i \<and> i < next_timer_id s) (pending_timers s)
      \<and> distinct (map fst (pending_timers s)))"

section \<open>An example page\<close>

text \<open>
  A page whose default theme gives the digits 0, 1, 2 and no base, with both endpoints
  configured; the string conversion knows the two strings used below.
\<close>

definition example_env :: env where
  "example_env =
     \<lparr>StringToNumber =
        (\<lambda>s. if s = js ''5'' then Fin 5 else if s = js ''7.6'' then Fin (76 / 10) else NaN),
      defaultTheme =
        \<lparr>dt_customOrderedDigits = Some [js ''0'', js ''1'', js ''2''],
         dt_customOrderedBase = JUndefined,
         dt_orderedMarkerPrefix = None,
         dt_orderedMarkerSuffix = None\<rparr>,
      urls_preview = True,
      urls_pdf = True\<rparr>"

text \<open>
  Its controls: custom bullets switched on over two blank bullet rows, three digit rows,
  and the base control showing 5.
\<close>

definition example_elements :: elements where
  "example_elements =
     \<lparr>el_title = Some (js ''Report''),
      el_markdown = Some (js ''# Hi''),
      el_toggleCustomBullets = Some True,
      el_bulletSequenceList = Some [js '' '', []],
      el_toggleCustomOrdered = Some False,
      el_orderedSequenceList =
        Some [\<lparr>placeholder = js ''0'', row_value = js ''a''\<rparr>,
              \<lparr>placeholder = js ''1'', row_value = js '' ''\<rparr>,
              \<lparr>placeholder = js ''2'', row_value = js ''c ''\<rparr>],
      el_customOrderedBase = Some (JStr (js ''5'')),
      el_customOrderedPrefix = Some [],
      el_customOrderedSuffix = Some (js ''.'')\<rparr>"

text \<open>The same page with the default digits \<open>""\<close>, \<open>" "\<close> and \<open>"x"\<close>.\<close>

definition blank_default_env :: env where
  "blank_default_env =
     example_env\<lparr>defaultTheme :=
       (defaultTheme example_env)\<lparr>dt_customOrderedDigits := Some [[], js '' '', js ''x'']\<rparr>\<rparr>"

text \<open>The page just loaded: nothing scheduled, nothing sent, no overlay.\<close>

definition example_sys :: sys where
  "example_sys =
     \<lparr>elements = example_elements,
      state_theme =
        \<lparr>title = js ''Report'', useCustomBullets = False, customBulletSequence = [],
         useCustomOrdered = False, customOrderedDigits = [js ''0'', js ''1'', js ''2''],
         customOrderedBase = 3, orderedMarkerPrefix = [], orderedMarkerSuffix = js ''.''\<rparr>,
      isPreviewDirty = True,
      previewTimer = None,
      activePreviewSerial = 0,
      previewStyle = Some [],
      previewOutput = Some [],
      previewStatus = Some ([], VIdle),
      btnDownload = Some False,
      loadingTemplate = True,
      clock = 0,
      pending_timers = [],
      next_timer_id = 1,
      fetches = [],
      document_title = js ''Report'',
      overlays = 0,
      alerts = [],
      console_errors = [],
      downloads = []\<rparr>"

section \<open>Properties of the base\<close>

lemma parseNumberOr_finite: "\<exists>y. parseNumberOr env v (Fin d) = Fin y"
  by (cases "Number (StringToNumber env) v") (simp_all add: parseNumberOr_def)

lemma clamp_round_finite:
  "clamp (Math_round (Fin y)) (Fin 2) (Fin 10) = Fin (of_int (min 10 (max 2 \<lfloor>y + 1 / 2\<rfloor>)))"
  by (simp add: clamp_def)

lemma DEFAULT_ORDERED_BASE_range:
  "\<exists>n. DEFAULT_ORDERED_BASE env = Fin (of_int n) \<and> 2 \<le> n \<and> n \<le> 10"
proof -
  let ?fb = "if length (defaultOrderedDigits env) = 0 then (3::real)
             else real (length (defaultOrderedDigits env))"
  obtain y where "parseNumberOr env (dt_customOrderedBase (defaultTheme env)) (Fin ?fb) = Fin y"
    using parseNumberOr_finite by blast
  then have "DEFAULT_ORDERED_BASE env = Fin (of_int (min 10 (max 2 \<lfloor>y + 1 / 2\<rfloor>)))"
    unfolding DEFAULT_ORDERED_BASE_def using clamp_round_finite [of y]
    by (simp add: if_distrib [of Fin])
  then show ?thesis by (intro exI [of _ "min 10 (max 2 \<lfloor>y + 1 / 2\<rfloor>)"]) simp
qed

lemma sanitizeOrderedBase_value:
  "\<exists>y. sanitizeOrderedBase env v = Fin (of_int (min 10 (max 2 \<lfloor>y + 1 / 2\<rfloor>)))
       \<and> parseNumberOr env v (DEFAULT_ORDERED_BASE env) = Fin y"
proof -
  obtain d where d: "DEFAULT_ORDERED_BASE env = Fin d"
    using DEFAULT_ORDERED_BASE_range by blast
  obtain y where y: "parseNumberOr env v (Fin d) = Fin y"
    using parseNumberOr_finite by blast
  have "sanitizeOrderedBase env v = Fin (of_int (min 10 (max 2 \<lfloor>y + 1 / 2\<rfloor>)))"
    unfolding sanitizeOrderedBase_def d y using clamp_round_finite [of y] by simp
  with d y show ?thesis by auto
qed

lemma sanitizeOrderedBase_range:
  "\<exists>n. sanitizeOrderedBase env v = Fin (of_int n) \<and> 2 \<le> n \<and> n \<le> 10"
proof -
  obtain y :: real
    where "sanitizeOrderedBase env v = Fin (of_int (min 10 (max 2 \<lfloor>y + 1 / 2\<rfloor>)))"
    using sanitizeOrderedBase_value by blast
  then show ?thesis by (intro exI [of _ "min 10 (max 2 \<lfloor>y + 1 / 2\<rfloor>)"]) simp
qed

lemma sanitizeOrderedBase_fixed:
  assumes "2 \<le> n" "n \<le> 10"
  shows "sanitizeOrderedBase env (JNum (Fin (of_int n))) = Fin (of_int n)"
proof -
  have "\<lfloor>(of_int n :: real) + 1 / 2\<rfloor> = n" by linarith
  with assms show ?thesis
    by (simp add: sanitizeOrderedBase_def parseNumberOr_def clamp_def)
qed

lemma sanitizeOrderedBase_NaN:
  assumes "Number (StringToNumber env) v = NaN"
  shows "sanitizeOrderedBase env v = DEFAULT_ORDERED_BASE env"
proof -
  obtain n where n: "DEFAULT_ORDERED_BASE env = Fin (of_int n)" "2 \<le> n" "n \<le> 10"
    using DEFAULT_ORDERED_BASE_range by blast
  have "\<lfloor>(of_int n :: real) + 1 / 2\<rfloor> = n" by linarith
  with assms n show ?thesis
    by (simp add: sanitizeOrderedBase_def parseNumberOr_def clamp_def)
qed

text \<open>
  C4. \<open>sanitizeOrderedBase\<close> is idempotent, returns an integer between 2 and 10 for every
  input, and returns the default base when the input does not parse (\<open>Number\<close> gives NaN).
\<close>

theorem sanitizeOrderedBase_idempotent_in_range:
  "sanitizeOrderedBase env (JNum (sanitizeOrderedBase env v)) = sanitizeOrderedBase env v
   \<and> (\<exists>n. sanitizeOrderedBase env v = Fin (of_int n) \<and> 2 \<le> n \<and> n \<le> 10)
   \<and> (Number (StringToNumber env) v = NaN
        \<longrightarrow> sanitizeOrderedBase env v = DEFAULT_ORDERED_BASE env)"
proof -
  obtain n where n: "sanitizeOrderedBase env v = Fin (of_int n)" "2 \<le> n" "n \<le> 10"
    using sanitizeOrderedBase_range by blast
  then have "sanitizeOrderedBase env (JNum (sanitizeOrderedBase env v)) = sanitizeOrderedBase env v"
    using sanitizeOrderedBase_fixed [of n env] by simp
  with n show ?thesis using sanitizeOrderedBase_NaN by blast
qed

theorem sanitizeOrderedBase_idempotent_in_range_witness:
  "Number (StringToNumber example_env) (JStr (js ''abc'')) = NaN
   \<and> sanitizeOrderedBase example_env (JStr (js ''abc'')) = DEFAULT_ORDERED_BASE example_env
   \<and> sanitizeOrderedBase example_env (JNum (sanitizeOrderedBase example_env (JStr (js ''abc''))))
       = sanitizeOrderedBase example_env (JStr (js ''abc''))"
proof -
  note range = sanitizeOrderedBase_idempotent_in_range [of example_env "JStr (js ''abc'')"]
  have nan: "Number (StringToNumber example_env) (JStr (js ''abc'')) = NaN"
    by (simp add: example_env_def js_def)
  have default:
    "sanitizeOrderedBase example_env (JStr (js ''abc'')) = DEFAULT_ORDERED_BASE example_env"
    using range [THEN conjunct2, THEN conjunct2, THEN mp, OF nan] .
  have idem:
    "sanitizeOrderedBase example_env (JNum (sanitizeOrderedBase example_env (JStr (js ''abc''))))
       = sanitizeOrderedBase example_env (JStr (js ''abc''))"
    using range [THEN conjunct1] .
  show ?thesis by (intro conjI; fact)
qed

section \<open>Properties of the digit table\<close>

lemmas eval_simps =
  example_env_def example_elements_def js_def trim_def is_whitespace_def whitespace_units_def
  index_def defaultOrderedDigits_def ensure_digit_def String_nat.simps strip_newlines_def
  render_row_def

lemma all_dropWhile: "(\<forall>x\<in>set (dropWhile P s). P x) \<longleftrightarrow> (\<forall>x\<in>set s. P x)"
  by (induction s) auto

lemma trim_blank: "trim s = [] \<longleftrightarrow> list_all is_whitespace s"
  by (simp add: trim_def dropWhile_eq_Nil_conv list_all_iff all_dropWhile)

lemma String_nat_nonempty: "String_nat n \<noteq> []"
  by (subst String_nat.simps) simp

lemma ensure_digit_nonempty: "ensure_digit env vals i \<noteq> []"
  by (simp add: ensure_digit_def Let_def String_nat_nonempty split: option.splits)

lemma ensure_loop_Fin:
  "i \<le> nat \<lceil>x\<rceil> \<Longrightarrow>
   ensure_loop env vals (Fin x) i digits
     = Some (digits @ map (ensure_digit env vals) [i..<nat \<lceil>x\<rceil>])"
proof (induction "nat \<lceil>x\<rceil> - i" arbitrary: i digits)
  case 0
  then have eq: "i = nat \<lceil>x\<rceil>" by linarith
  then have "\<not> real i < x" by linarith
  with eq show ?case
    by (subst ensure_loop.simps) simp
next
  case (Suc k)
  then have lt: "i < nat \<lceil>x\<rceil>" by linarith
  then have "real i < x" by linarith
  moreover have "ensure_loop env vals (Fin x) (i + 1) (digits @ [ensure_digit env vals i])
      = Some ((digits @ [ensure_digit env vals i])
              @ map (ensure_digit env vals) [i + 1..<nat \<lceil>x\<rceil>])"
    using Suc lt by (intro Suc.hyps(1)) simp_all
  ultimately show ?case using lt
    by (subst ensure_loop.simps) (simp add: upt_conv_Cons)
qed

lemma ensure_loop_prefix:
  assumes "ensure_loop env vals base i digits = Some ds"
  shows "\<exists>k. ds = digits @ map (ensure_digit env vals) [i..<i + k]"
proof (rule ensure_loop.raw_induct
    [where P = "\<lambda>e vs b j acc r. \<exists>k. r = acc @ map (ensure_digit e vs) [j..<j + k]", OF _ assms])
  fix f e vs b j acc r
  assume IH: "\<And>vs b j acc e r. f vs b j acc e = Some r \<Longrightarrow>
                \<exists>k. r = e @ map (ensure_digit vs b) [acc..<acc + k]"
    and eq: "(if js_less (Fin (real j)) b
              then f e vs b (j + 1) (acc @ [ensure_digit e vs j]) else Some acc) = Some r"
  show "\<exists>k. r = acc @ map (ensure_digit e vs) [j..<j + k]"
  proof (cases "js_less (Fin (real j)) b")
    case True
    with eq have "f e vs b (j + 1) (acc @ [ensure_digit e vs j]) = Some r" by simp
    from IH [OF this] obtain k where
      "r = (acc @ [ensure_digit e vs j]) @ map (ensure_digit e vs) [j + 1..<j + 1 + k]" by blast
    moreover have "[j..<j + (k + 1)] = j # [j + 1..<j + 1 + k]"
      by (simp add: upt_conv_Cons del: upt_Suc)
    ultimately have "r = acc @ map (ensure_digit e vs) [j..<j + (k + 1)]"
      by simp
    then show ?thesis by blast
  next
    case False
    with eq have "r = acc" by simp
    then show ?thesis by (intro exI [of _ 0]) simp
  qed
qed

lemma ensureOrderedDigits_nat:
  "ensureOrderedDigits env vals (Fin (real n)) = Some (map (ensure_digit env vals) [0..<n])"
  using ensure_loop_Fin [of 0 "real n" env vals "[]"] by (simp add: ensureOrderedDigits_def)

lemma ensureOrderedDigits_returns:
  "base \<noteq> PosInf \<Longrightarrow> \<exists>ds. ensureOrderedDigits env vals base = Some ds"
proof (cases base)
  case (Fin x)
  then show ?thesis
    using ensure_loop_Fin [of 0 x env vals "[]"] by (simp add: ensureOrderedDigits_def)
next
  case NaN
  then show ?thesis
    unfolding ensureOrderedDigits_def by (subst ensure_loop.simps) simp
next
  case NegInf
  then show ?thesis
    unfolding ensureOrderedDigits_def by (subst ensure_loop.simps) simp
qed simp

lemma ensureOrderedDigits_map:
  assumes "ensureOrderedDigits env vals base = Some ds"
  shows "ds = map (ensure_digit env vals) [0..<length ds]"
proof -
  obtain k where "ds = map (ensure_digit env vals) [0..<k]"
    using ensure_loop_prefix [of env vals base 0 "[]" ds] assms
    by (auto simp: ensureOrderedDigits_def)
  then show ?thesis by simp
qed

text \<open>
  C5. For every list of values and every base \<open>n\<close>, \<open>ensureOrderedDigits\<close> returns a
  list of exactly \<open>n\<close> digits; position \<open>i\<close> holds the trimmed candidate \<open>values[i]\<close> when
  that is not empty, else the default digit at \<open>i\<close> (when there is one and it is not the
  empty string), else the index \<open>i\<close> as a string.
\<close>

theorem ensureOrderedDigits_length_positions:
  "\<exists>ds. ensureOrderedDigits env vals (Fin (real n)) = Some ds \<and> length ds = n
     \<and> (\<forall>i<n. ds ! i =
          (let candidate = trim (case index vals i of Some v \<Rightarrow> v | None \<Rightarrow> [])
           in if candidate \<noteq> [] then candidate
              else (case index (defaultOrderedDigits env) i of
                      Some d \<Rightarrow> if d \<noteq> [] then d else String_nat i
                    | None \<Rightarrow> String_nat i)))"
  by (simp add: ensureOrderedDigits_nat ensure_digit_def)

theorem ensureOrderedDigits_length_positions_witness:
  "\<exists>ds. ensureOrderedDigits example_env [js '' a '', js '' ''] (Fin (real (5::nat))) = Some ds
     \<and> length ds = 5 \<and> ds ! 0 = js ''a'' \<and> ds ! 1 = js ''1'' \<and> ds ! 4 = js ''4''"
proof -
  obtain ds where ds: "ensureOrderedDigits example_env [js '' a '', js '' ''] (Fin (real (5::nat))) = Some ds"
      "length ds = 5"
    and pos: "\<forall>i<5. ds ! i =
          (let candidate = trim (case index [js '' a '', js '' ''] i of Some v \<Rightarrow> v | None \<Rightarrow> [])
           in if candidate \<noteq> [] then candidate
              else (case index (defaultOrderedDigits example_env) i of
                      Some d \<Rightarrow> if d \<noteq> [] then d else String_nat i
                    | None \<Rightarrow> String_nat i))"
    using ensureOrderedDigits_length_positions [of example_env "[js '' a '', js '' '']" 5]
    by blast
  have "ds ! 0 = js ''a''" using pos [rule_format, of 0] by (simp add: eval_simps)
  moreover have "ds ! 1 = js ''1''" using pos [rule_format, of 1] by (simp add: eval_simps)
  moreover have "ds ! 4 = js ''4''" using pos [rule_format, of 4] by (simp add: eval_simps)
  ultimately show ?thesis using ds by (intro exI [of _ ds] conjI)
qed

text \<open>
  C10, as the code has it. For every list of values and every base, every string of the
  list that \<open>ensureOrderedDigits\<close> returns is non-empty. Where the trimmed candidate is
  empty, the position holds the default digit of its index when there is one and it is
  not the empty string, untrimmed, also when it is whitespace only; it holds the index as
  a string when the default digit is missing or the empty string. A list is returned for
  every base but \<open>+Infinity\<close>, for which the loop does not end.
\<close>

theorem ensureOrderedDigits_nonempty:
  "(base \<noteq> PosInf \<longrightarrow> (\<exists>ds. ensureOrderedDigits env vals base = Some ds))
   \<and> (\<forall>ds. ensureOrderedDigits env vals base = Some ds \<longrightarrow>
         (\<forall>d\<in>set ds. d \<noteq> [])
         \<and> (\<forall>i<length ds.
               trim (case index vals i of Some v \<Rightarrow> v | None \<Rightarrow> []) = []
               \<longrightarrow> ds ! i =
                     (case index (defaultOrderedDigits env) i of
                        Some d \<Rightarrow> if d \<noteq> [] then d else String_nat i
                      | None \<Rightarrow> String_nat i)))"
proof -
  have returns: "base \<noteq> PosInf \<longrightarrow> (\<exists>ds. ensureOrderedDigits env vals base = Some ds)"
    using ensureOrderedDigits_returns by blast
  have digits: "(\<forall>d\<in>set ds. d \<noteq> [])
         \<and> (\<forall>i<length ds.
               trim (case index vals i of Some v \<Rightarrow> v | None \<Rightarrow> []) = []
               \<longrightarrow> ds ! i =
                     (case index (defaultOrderedDigits env) i of
                        Some d \<Rightarrow> if d \<noteq> [] then d else String_nat i
                      | None \<Rightarrow> String_nat i))"
    if "ensureOrderedDigits env vals base = Some ds" for ds
  proof -
    from that have ds: "ds = map (ensure_digit env vals) [0..<length ds]"
      by (rule ensureOrderedDigits_map)
    have "d \<noteq> []" if "d \<in> set ds" for d
    proof -
      from that ds have "d \<in> set (map (ensure_digit env vals) [0..<length ds])" by simp
      then show ?thesis using ensure_digit_nonempty by auto
    qed
    moreover have "ds ! i =
                     (case index (defaultOrderedDigits env) i of
                        Some d \<Rightarrow> if d \<noteq> [] then d else String_nat i
                      | None \<Rightarrow> String_nat i)"
      if "i < length ds"
        and "trim (case index vals i of Some v \<Rightarrow> v | None \<Rightarrow> []) = []" for i
    proof -
      from that(1) have "ds ! i = map (ensure_digit env vals) [0..<length ds] ! i"
        using ds by simp
      with that(1) have "ds ! i = ensure_digit env vals i" by simp
      with that(2) show ?thesis by (simp add: ensure_digit_def)
    qed
    ultimately show ?thesis by blast
  qed
  from returns digits show ?thesis by blast
qed

theorem ensureOrderedDigits_nonempty_witness:
  "Fin 4 \<noteq> PosInf
   \<and> ensureOrderedDigits example_env [js '' '', js ''b''] (Fin 4)
       = Some [js ''0'', js ''b'', js ''2'', js ''3'']
   \<and> trim (case index [js '' '', js ''b''] 3 of Some v \<Rightarrow> v | None \<Rightarrow> []) = []
   \<and> index (defaultOrderedDigits example_env) 3 = None
   \<and> [js ''0'', js ''b'', js ''2'', js ''3''] ! 3 = String_nat 3
   \<and> [] \<notin> set [js ''0'', js ''b'', js ''2'', js ''3'']"
proof -
  let ?ds = "[js ''0'', js ''b'', js ''2'', js ''3'']"
  have run: "ensureOrderedDigits example_env [js '' '', js ''b''] (Fin 4) = Some ?ds"
    by (simp add: ensureOrderedDigits_def ensure_loop.simps eval_simps)
  have blank: "trim (case index [js '' '', js ''b''] 3 of Some v \<Rightarrow> v | None \<Rightarrow> []) = []"
    and missing: "index (defaultOrderedDigits example_env) 3 = None"
    by (simp_all add: eval_simps)
  from ensureOrderedDigits_nonempty [of "Fin 4" example_env "[js '' '', js ''b'']"] run
  have all: "\<forall>d\<in>set ?ds. d \<noteq> []"
    and fall: "\<forall>i<length ?ds.
               trim (case index [js '' '', js ''b''] i of Some v \<Rightarrow> v | None \<Rightarrow> []) = []
               \<longrightarrow> ?ds ! i =
                     (case index (defaultOrderedDigits example_env) i of
                        Some d \<Rightarrow> if d \<noteq> [] then d else String_nat i
                      | None \<Rightarrow> String_nat i)"
    by blast+
  from fall [rule_format, of 3] blank missing have last: "?ds ! 3 = String_nat 3" by simp
  have finite: "Fin 4 \<noteq> PosInf" by simp
  from all have none: "[] \<notin> set ?ds" by blast
  show ?thesis by (intro conjI; fact)
qed

text \<open>
  The claim C10 as stated fails for a default digit that is whitespace only: with the
  default digits \<open>""\<close>, \<open>" "\<close>, \<open>"x"\<close>, no values and the base 4, the blank default
  \<open>" "\<close> at index 1 is emitted as it is and does not fall through to the index \<open>1\<close>;
  only the empty default at index 0 does.
\<close>

theorem ensureOrderedDigits_blank_default_counterexample:
  "ensureOrderedDigits blank_default_env [] (Fin 4)
     = Some [js ''0'', js '' '', js ''x'', js ''3'']
   \<and> index (defaultOrderedDigits blank_default_env) 1 = Some (js '' '')
   \<and> trim (js '' '') = []
   \<and> String_nat 1 = js ''1''
   \<and> js '' '' \<noteq> js ''1''"
  by (simp add: ensureOrderedDigits_def ensure_loop.simps blank_default_env_def eval_simps)

section \<open>Properties of the rendered digit rows\<close>

lemma render_rows_Fin:
  "i \<le> nat \<lceil>x\<rceil> \<Longrightarrow>
   render_rows env vals (Fin x) i rows
     = Some (rows @ map (render_row env vals) [i..<nat \<lceil>x\<rceil>])"
proof (induction "nat \<lceil>x\<rceil> - i" arbitrary: i rows)
  case 0
  then have eq: "i = nat \<lceil>x\<rceil>" by linarith
  then have "\<not> real i < x" by linarith
  with eq show ?case
    by (subst render_rows.simps) simp
next
  case (Suc k)
  then have lt: "i < nat \<lceil>x\<rceil>" by linarith
  then have "real i < x" by linarith
  moreover have "render_rows env vals (Fin x) (i + 1) (rows @ [render_row env vals i])
      = Some ((rows @ [render_row env vals i])
              @ map (render_row env vals) [i + 1..<nat \<lceil>x\<rceil>])"
    using Suc lt by (intro Suc.hyps(1)) simp_all
  ultimately show ?case using lt
    by (subst render_rows.simps) (simp add: upt_conv_Cons)
qed

text \<open>
  C3, as the code has it. For a base \<open>b\<close> from 2 to 10 and a prior digit array,
  \<open>renderOrderedSequence\<close> leaves exactly \<open>b\<close> rows. The row at an index below the
  length of the prior array is assigned the prior value; a row beyond it is assigned the
  default digit of its index when there is one and the empty string otherwise, the index
  as a string being only its placeholder. What a row then holds is the assigned string
  less its line feeds and carriage returns, which a text input does not keep.
\<close>

theorem renderOrderedSequence_rows:
  "2 \<le> b \<Longrightarrow> b \<le> 10 \<Longrightarrow> el_orderedSequenceList els = Some old \<Longrightarrow>
   \<exists>rows. renderOrderedSequence env (JNum (Fin (real b))) prior els
            = Some (els\<lparr>el_orderedSequenceList := Some rows\<rparr>)
     \<and> length rows = b
     \<and> (\<forall>i<b. row_value (rows ! i) =
                  filter (\<lambda>c. c \<noteq> 0xA \<and> c \<noteq> 0xD)
                    (if i < length prior then prior ! i
                     else (case index (defaultOrderedDigits env) i of
                             Some d \<Rightarrow> d | None \<Rightarrow> []))
               \<and> placeholder (rows ! i) =
                  (case index (defaultOrderedDigits env) i of
                     Some d \<Rightarrow> d | None \<Rightarrow> String_nat i))"
proof -
  assume b: "2 \<le> b" "b \<le> 10" and present: "el_orderedSequenceList els = Some old"
  define rows where "rows = map (render_row env prior) [0..<b]"
  from b have "sanitizeOrderedBase env (JNum (Fin (of_int (int b)))) = Fin (of_int (int b))"
    by (intro sanitizeOrderedBase_fixed) simp_all
  then have base: "sanitizeOrderedBase env (JNum (Fin (real b))) = Fin (real b)"
    by simp
  have "render_rows env prior (Fin (real b)) 0 [] = Some rows"
    using render_rows_Fin [of 0 "real b" env prior "[]"] by (simp add: rows_def)
  then have run: "renderOrderedSequence env (JNum (Fin (real b))) prior els
            = Some (els\<lparr>el_orderedSequenceList := Some rows\<rparr>)"
    by (simp add: renderOrderedSequence_def present base)
  have len: "length rows = b"
    by (simp add: rows_def)
  have vals: "\<forall>i<b. row_value (rows ! i) =
                  filter (\<lambda>c. c \<noteq> 0xA \<and> c \<noteq> 0xD)
                    (if i < length prior then prior ! i
                     else (case index (defaultOrderedDigits env) i of
                             Some d \<Rightarrow> d | None \<Rightarrow> []))
               \<and> placeholder (rows ! i) =
                  (case index (defaultOrderedDigits env) i of
                     Some d \<Rightarrow> d | None \<Rightarrow> String_nat i)"
    by (auto simp: rows_def render_row_def strip_newlines_def index_def)
  from run len vals show ?thesis by blast
qed

theorem renderOrderedSequence_rows_witness:
  "(2::nat) \<le> 5 \<and> (5::nat) \<le> 10
   \<and> el_orderedSequenceList example_elements \<noteq> None
   \<and> (\<exists>rows. renderOrderedSequence example_env (JNum (Fin (real (5::nat))))
                [js ''x'', [], [0x7A, 0xA]] example_elements
             = Some (example_elements\<lparr>el_orderedSequenceList := Some rows\<rparr>)
          \<and> length rows = 5
          \<and> row_value (rows ! 1) = [] \<and> row_value (rows ! 2) = js ''z''
          \<and> row_value (rows ! 3) = [] \<and> placeholder (rows ! 3) = js ''3'')"
proof -
  have b: "(2::nat) \<le> 5" "(5::nat) \<le> 10" by simp_all
  obtain old where present: "el_orderedSequenceList example_elements = Some old"
    by (simp add: example_elements_def)
  from renderOrderedSequence_rows [OF b present, of example_env "[js ''x'', [], [0x7A, 0xA]]"]
  obtain rows where
    run: "renderOrderedSequence example_env (JNum (Fin (real (5::nat))))
            [js ''x'', [], [0x7A, 0xA]] example_elements
          = Some (example_elements\<lparr>el_orderedSequenceList := Some rows\<rparr>)"
    and len: "length rows = 5"
    and vals: "\<forall>i<5. row_value (rows ! i) =
                  filter (\<lambda>c. c \<noteq> 0xA \<and> c \<noteq> 0xD)
                    (if i < length [js ''x'', [], [0x7A, 0xA]]
                     then [js ''x'', [], [0x7A, 0xA]] ! i
                     else (case index (defaultOrderedDigits example_env) i of
                             Some d \<Rightarrow> d | None \<Rightarrow> []))
               \<and> placeholder (rows ! i) =
                  (case index (defaultOrderedDigits example_env) i of
                     Some d \<Rightarrow> d | None \<Rightarrow> String_nat i)"
    by blast
  have "row_value (rows ! 1) = []" "row_value (rows ! 2) = js ''z''"
    "row_value (rows ! 3) = []" "placeholder (rows ! 3) = js ''3''"
    using vals [rule_format, of 1] vals [rule_format, of 2] vals [rule_format, of 3]
    by (simp_all add: eval_simps)
  with run len have "\<exists>rows. renderOrderedSequence example_env (JNum (Fin (real (5::nat))))
                [js ''x'', [], [0x7A, 0xA]] example_elements
             = Some (example_elements\<lparr>el_orderedSequenceList := Some rows\<rparr>)
          \<and> length rows = 5
          \<and> row_value (rows ! 1) = [] \<and> row_value (rows ! 2) = js ''z''
          \<and> row_value (rows ! 3) = [] \<and> placeholder (rows ! 3) = js ''3''"
    by (intro exI [of _ rows] conjI)
  moreover have "el_orderedSequenceList example_elements \<noteq> None"
    using present by simp
  ultimately show ?thesis using b by (intro conjI)
qed

text \<open>
  The claim C3 as stated fails. With the default digits 0, 1, 2, the prior values 0, 1, 2
  and the base 5, there is no default digit at index 3, yet row 3 (and row 4) holds the
  empty string, not the index \<open>3\<close> as a string. And a prior value with a line feed in
  it, here \<open>a\<close>, line feed, \<open>b\<close>, is not held as it is: the row holds \<open>ab\<close>.
\<close>

theorem renderOrderedSequence_index_counterexample:
  "map_option (map row_value)
     (Option.bind
        (renderOrderedSequence example_env (JNum (Fin 5)) [js ''0'', js ''1'', js ''2'']
           example_elements)
        el_orderedSequenceList)
     = Some [js ''0'', js ''1'', js ''2'', [], []]
   \<and> index (defaultOrderedDigits example_env) 3 = None
   \<and> String_nat 3 = js ''3''
   \<and> js ''3'' \<noteq> []
   \<and> map_option (map row_value)
       (Option.bind
          (renderOrderedSequence example_env (JNum (Fin 2)) [[0x61, 0xA, 0x62], js ''1'']
             example_elements)
          el_orderedSequenceList)
     = Some [js ''ab'', js ''1'']
   \<and> [0x61, 0xA, 0x62] \<noteq> js ''ab''"
  by (simp add: renderOrderedSequence_def render_rows.simps
      sanitizeOrderedBase_def parseNumberOr_def clamp_def DEFAULT_ORDERED_BASE_def eval_simps)

section \<open>Properties of the gathered theme\<close>

lemma sanitizeOrderedBase_nat:
  "\<exists>n. sanitizeOrderedBase env v = Fin (real n) \<and> 2 \<le> n \<and> n \<le> 10"
proof -
  obtain k where k: "sanitizeOrderedBase env v = Fin (of_int k)" "2 \<le> k" "k \<le> 10"
    using sanitizeOrderedBase_range by blast
  then have "sanitizeOrderedBase env v = Fin (real (nat k))" by simp
  moreover from k have "2 \<le> nat k" "nat k \<le> 10" by linarith+
  ultimately show ?thesis by blast
qed

lemma filter_trim_nonblank:
  "filter (\<lambda>v. v \<noteq> []) (map trim inputs)
     = map trim (filter (\<lambda>v. \<not> list_all is_whitespace v) inputs)"
  by (induction inputs) (simp_all add: trim_blank)

text \<open>
  C6. \<open>gatherTheme\<close> returns for every state of the controls, and in the theme it
  returns the digit table has exactly \<open>customOrderedBase\<close> entries, which is the
  sanitized value of the base control.
\<close>

theorem gatherTheme_digits_length:
  "\<exists>th els'. gatherTheme env els = Some (th, els')
     \<and> length (customOrderedDigits th) = customOrderedBase th
     \<and> Fin (real (customOrderedBase th))
         = sanitizeOrderedBase env
             (case el_customOrderedBase els of None \<Rightarrow> JUndefined | Some v \<Rightarrow> v)"
proof -
  obtain n where n: "sanitizeOrderedBase env
      (case el_customOrderedBase els of None \<Rightarrow> JUndefined | Some v \<Rightarrow> v) = Fin (real n)"
    using sanitizeOrderedBase_nat by blast
  show ?thesis
    unfolding gatherTheme_def Let_def n
    by (simp add: ensureOrderedDigits_nat)
qed

text \<open>
  C7. \<open>readBulletSequence\<close> returns the trimmed values of the rows that are not blank
  (empty or whitespace only), in order; the gathered theme carries that sequence, and its
  \<open>useCustomBullets\<close> is false whenever the sequence is empty, whatever the checkbox says.
\<close>

theorem readBulletSequence_useCustomBullets:
  "readBulletSequence els =
     (case el_bulletSequenceList els of
        None \<Rightarrow> []
      | Some inputs \<Rightarrow> map trim (filter (\<lambda>v. \<not> list_all is_whitespace v) inputs))
   \<and> (\<exists>th els'. gatherTheme env els = Some (th, els')
         \<and> customBulletSequence th = readBulletSequence els
         \<and> (readBulletSequence els = [] \<longrightarrow> \<not> useCustomBullets th))"
proof -
  obtain n where n: "sanitizeOrderedBase env
      (case el_customOrderedBase els of None \<Rightarrow> JUndefined | Some v \<Rightarrow> v) = Fin (real n)"
    using sanitizeOrderedBase_nat by blast
  have "\<exists>th els'. gatherTheme env els = Some (th, els')
         \<and> customBulletSequence th = readBulletSequence els
         \<and> (readBulletSequence els = [] \<longrightarrow> \<not> useCustomBullets th)"
    unfolding gatherTheme_def Let_def n
    by (simp add: ensureOrderedDigits_nat)
  moreover have "readBulletSequence els =
     (case el_bulletSequenceList els of
        None \<Rightarrow> []
      | Some inputs \<Rightarrow> map trim (filter (\<lambda>v. \<not> list_all is_whitespace v) inputs))"
    by (simp add: readBulletSequence_def filter_trim_nonblank split: option.splits)
  ultimately show ?thesis by (rule conjI [rotated])
qed

theorem readBulletSequence_useCustomBullets_witness:
  "el_toggleCustomBullets example_elements = Some True
   \<and> readBulletSequence example_elements = []
   \<and> (\<exists>th els'. gatherTheme example_env example_elements = Some (th, els')
         \<and> \<not> useCustomBullets th)"
proof -
  have checked: "el_toggleCustomBullets example_elements = Some True"
    by (simp add: example_elements_def)
  have empty: "readBulletSequence example_elements = []"
    by (simp add: readBulletSequence_def eval_simps)
  from readBulletSequence_useCustomBullets [of example_elements example_env] empty
  have "\<exists>th els'. gatherTheme example_env example_elements = Some (th, els')
         \<and> \<not> useCustomBullets th"
    by blast
  with checked empty show ?thesis by (intro conjI)
qed

section \<open>Properties of the steps\<close>

lemma gatherTheme_returns:
  "\<exists>th els'. gatherTheme env els = Some (th, els') \<and> el_markdown els' = el_markdown els"
proof -
  obtain n where n: "sanitizeOrderedBase env
      (case el_customOrderedBase els of None \<Rightarrow> JUndefined | Some v \<Rightarrow> v) = Fin (real n)"
    using sanitizeOrderedBase_nat by blast
  show ?thesis
    unfolding gatherTheme_def Let_def n
    by (simp add: ensureOrderedDigits_nat split: option.splits)
qed

lemma updateStatus_frame [simp]:
  "elements (updateStatus text v s) = elements s"
  "state_theme (updateStatus text v s) = state_theme s"
  "isPreviewDirty (updateStatus text v s) = isPreviewDirty s"
  "previewTimer (updateStatus text v s) = previewTimer s"
  "activePreviewSerial (updateStatus text v s) = activePreviewSerial s"
  "previewStyle (updateStatus text v s) = previewStyle s"
  "previewOutput (updateStatus text v s) = previewOutput s"
  "btnDownload (updateStatus text v s) = btnDownload s"
  "loadingTemplate (updateStatus text v s) = loadingTemplate s"
  "clock (updateStatus text v s) = clock s"
  "pending_timers (updateStatus text v s) = pending_timers s"
  "next_timer_id (updateStatus text v s) = next_timer_id s"
  "fetches (updateStatus text v s) = fetches s"
  "document_title (updateStatus text v s) = document_title s"
  "overlays (updateStatus text v s) = overlays s"
  "alerts (updateStatus text v s) = alerts s"
  "console_errors (updateStatus text v s) = console_errors s"
  "downloads (updateStatus text v s) = downloads s"
  by (simp_all add: updateStatus_def split: option.splits)

lemma updateStatus_status [simp]:
  "previewStatus (updateStatus text v s)
     = (case previewStatus s of None \<Rightarrow> None | Some old \<Rightarrow> Some (text, v))"
  by (simp add: updateStatus_def split: option.splits)

lemma runPreview_off: "\<not> urls_preview env \<Longrightarrow> runPreview env s = Some s"
  by (simp add: runPreview_def)

lemma runPreview_on:
  assumes "urls_preview env" and "gatherTheme env (elements s) = Some (th, els')"
  shows "runPreview env s =
    Some ((updateStatus msg_rendering VLoading (s\<lparr>elements := els', state_theme := th\<rparr>))
          \<lparr>activePreviewSerial := activePreviewSerial s + 1,
           fetches := fetches s @
             [PreviewFetch (activePreviewSerial s + 1)
                \<lparr>body_markdown = (case el_markdown els' of None \<Rightarrow> [] | Some v \<Rightarrow> v),
                 body_theme = th, body_title = title th\<rparr>]\<rparr>)"
  using assms by (simp add: runPreview_def Let_def)


lemma runPreview_frame:
  assumes "runPreview env s = Some s'"
  shows "activePreviewSerial s \<le> activePreviewSerial s'"
    and "pending_timers s' = pending_timers s" and "previewTimer s' = previewTimer s"
    and "next_timer_id s' = next_timer_id s" and "clock s' = clock s"
    and "overlays s' = overlays s" and "btnDownload s' = btnDownload s"
    and "loadingTemplate s' = loadingTemplate s" and "alerts s' = alerts s"
proof -
  obtain th els' where g: "gatherTheme env (elements s) = Some (th, els')"
    using gatherTheme_returns by blast
  show "activePreviewSerial s \<le> activePreviewSerial s'"
    and "pending_timers s' = pending_timers s" and "previewTimer s' = previewTimer s"
    and "next_timer_id s' = next_timer_id s" and "clock s' = clock s"
    and "overlays s' = overlays s" and "btnDownload s' = btnDownload s"
    and "loadingTemplate s' = loadingTemplate s" and "alerts s' = alerts s"
    using assms runPreview_on [OF _ g] runPreview_off [of env s]
    by (cases "urls_preview env"; auto)+
qed

lemma runPreview_resume_frame:
  "activePreviewSerial (runPreview_resume serial outcome s) = activePreviewSerial s"
  "pending_timers (runPreview_resume serial outcome s) = pending_timers s"
  "previewTimer (runPreview_resume serial outcome s) = previewTimer s"
  "next_timer_id (runPreview_resume serial outcome s) = next_timer_id s"
  "clock (runPreview_resume serial outcome s) = clock s"
  "overlays (runPreview_resume serial outcome s) = overlays s"
  "btnDownload (runPreview_resume serial outcome s) = btnDownload s"
  "loadingTemplate (runPreview_resume serial outcome s) = loadingTemplate s"
  "alerts (runPreview_resume serial outcome s) = alerts s"
  "fetches (runPreview_resume serial outcome s) = fetches s"
  by (simp_all add: runPreview_resume_def preview_catch_def Let_def
      split: preview_outcome.splits option.splits)

lemma downloadPdf_off: "\<not> urls_pdf env \<Longrightarrow> downloadPdf env s = Some s"
  by (simp add: downloadPdf_def)

lemma downloadPdf_on:
  assumes "urls_pdf env" and "gatherTheme env (elements s) = Some (th, els')"
  shows "downloadPdf env s =
    Some ((let s2 = fst (toggleLoading True (s\<lparr>elements := els', state_theme := th\<rparr>))
           in case btnDownload s2 of None \<Rightarrow> s2 | Some old \<Rightarrow> s2\<lparr>btnDownload := Some True\<rparr>)
          \<lparr>fetches := fetches s @
             [PdfFetch (snd (toggleLoading True (s\<lparr>elements := els', state_theme := th\<rparr>)))
                \<lparr>body_markdown = (case el_markdown els' of None \<Rightarrow> [] | Some v \<Rightarrow> v),
                 body_theme = th, body_title = title th\<rparr>]\<rparr>)"
  using assms
  by (simp add: downloadPdf_def Let_def toggleLoading_def split: option.splits prod.splits)


lemma downloadPdf_frame:
  assumes "downloadPdf env s = Some s'"
  shows "activePreviewSerial s' = activePreviewSerial s"
    and "pending_timers s' = pending_timers s" and "previewTimer s' = previewTimer s"
    and "next_timer_id s' = next_timer_id s" and "clock s' = clock s"
proof -
  obtain th els' where g: "gatherTheme env (elements s) = Some (th, els')"
    using gatherTheme_returns by blast
  show "activePreviewSerial s' = activePreviewSerial s"
    and "pending_timers s' = pending_timers s" and "previewTimer s' = previewTimer s"
    and "next_timer_id s' = next_timer_id s" and "clock s' = clock s"
    using assms downloadPdf_on [OF _ g] downloadPdf_off [of env s]
    by (cases "urls_pdf env"; auto simp: Let_def toggleLoading_def split: option.splits)+
qed

lemma downloadPdf_resume_frame:
  "activePreviewSerial (downloadPdf_resume overlay outcome s) = activePreviewSerial s"
  "pending_timers (downloadPdf_resume overlay outcome s) = pending_timers s"
  "previewTimer (downloadPdf_resume overlay outcome s) = previewTimer s"
  "next_timer_id (downloadPdf_resume overlay outcome s) = next_timer_id s"
  "clock (downloadPdf_resume overlay outcome s) = clock s"
  by (simp_all add: downloadPdf_resume_def pdf_finally_def pdf_catch_def toggleLoading_def
      Let_def split: pdf_outcome.splits option.splits)

lemma schedulePreview_frame:
  "activePreviewSerial (schedulePreview immediate s) = activePreviewSerial s"
  "overlays (schedulePreview immediate s) = overlays s"
  "btnDownload (schedulePreview immediate s) = btnDownload s"
  "loadingTemplate (schedulePreview immediate s) = loadingTemplate s"
  "clock (schedulePreview immediate s) = clock s"
  "fetches (schedulePreview immediate s) = fetches s"
  by (simp_all add: schedulePreview_def clearTimeout_def setTimeout_def Let_def
      split: option.splits)

lemma fire_timers_frame:
  "fire_timers env ts s = Some s' \<Longrightarrow>
   activePreviewSerial s \<le> activePreviewSerial s'
   \<and> pending_timers s' = pending_timers s \<and> previewTimer s' = previewTimer s
   \<and> next_timer_id s' = next_timer_id s \<and> clock s' = clock s
   \<and> overlays s' = overlays s \<and> btnDownload s' = btnDownload s
   \<and> loadingTemplate s' = loadingTemplate s"
proof (induction ts arbitrary: s)
  case Nil
  then show ?case by simp
next
  case (Cons t ts)
  then obtain s1 where s1: "runPreview env s = Some s1" and rest: "fire_timers env ts s1 = Some s'"
    by (auto simp: bind_eq_Some_conv)
  from Cons.IH [OF rest] runPreview_frame [OF s1] show ?case by simp
qed




lemma step_serial_mono:
  assumes "step env e s = Some s'"
  shows "activePreviewSerial s \<le> activePreviewSerial s'"
proof (cases e)
  case (Elapse t)
  with assms show ?thesis
    using fire_timers_frame [of env _ _ s'] by (fastforce simp: elapse_def)
next
  case DownloadClick
  with assms show ?thesis
    using downloadPdf_frame(1) [of env s s'] by (auto split: if_splits)
qed (use assms in \<open>auto simp: schedulePreview_frame runPreview_resume_frame downloadPdf_resume_frame\<close>)

lemma run_serial_mono:
  "run env es s = Some s' \<Longrightarrow> activePreviewSerial s \<le> activePreviewSerial s'"
proof (induction es arbitrary: s)
  case Nil
  then show ?case by simp
next
  case (Cons e es)
  then obtain s1 where s1: "step env e s = Some s1" and rest: "run env es s1 = Some s'"
    by (auto simp: bind_eq_Some_conv)
  from step_serial_mono [OF s1] Cons.IH [OF rest] show ?case by simp
qed

section \<open>Properties of the preview\<close>

lemma stale_ok_discarded:
  "serial \<noteq> activePreviewSerial s \<Longrightarrow> runPreview_resume serial (PreviewOk html css) s = s"
  by (simp add: runPreview_resume_def)

lemma current_ok_applied:
  "previewOutput (runPreview_resume (activePreviewSerial s) (PreviewOk html css) s)
     = (case previewOutput s of None \<Rightarrow> None
        | Some old \<Rightarrow> Some (case html of None \<Rightarrow> [] | Some h \<Rightarrow> h))"
  "previewStyle (runPreview_resume (activePreviewSerial s) (PreviewOk html css) s)
     = (case previewStyle s of None \<Rightarrow> None
        | Some old \<Rightarrow> Some (case css of None \<Rightarrow> [] | Some c \<Rightarrow> c))"
  by (simp_all add: runPreview_resume_def Let_def split: option.splits)

text \<open>
  C1. Let the success response of the request with serial \<open>s2\<close> arrive while \<open>s2\<close> is
  the active serial, so that it is applied: the preview then shows its markup and style.
  Whatever happens afterwards, a success response of a request with a smaller serial
  \<open>s1\<close> changes nothing when it arrives; and had it arrived first, it would have changed
  nothing either, so that both orders of arrival end in the same state.
\<close>

theorem last_preview_request_wins:
  "activePreviewSerial s = s2 \<Longrightarrow> s1 < s2 \<Longrightarrow>
   previewOutput (runPreview_resume s2 (PreviewOk html2 css2) s)
     = (case previewOutput s of None \<Rightarrow> None
        | Some old \<Rightarrow> Some (case html2 of None \<Rightarrow> [] | Some h \<Rightarrow> h))
   \<and> previewStyle (runPreview_resume s2 (PreviewOk html2 css2) s)
     = (case previewStyle s of None \<Rightarrow> None
        | Some old \<Rightarrow> Some (case css2 of None \<Rightarrow> [] | Some c \<Rightarrow> c))
   \<and> (\<forall>es s'. run env es (runPreview_resume s2 (PreviewOk html2 css2) s) = Some s'
          \<longrightarrow> runPreview_resume s1 (PreviewOk html1 css1) s' = s')
   \<and> runPreview_resume s2 (PreviewOk html2 css2) (runPreview_resume s1 (PreviewOk html1 css1) s)
       = runPreview_resume s1 (PreviewOk html1 css1) (runPreview_resume s2 (PreviewOk html2 css2) s)"
proof -
  assume active: "activePreviewSerial s = s2" and less: "s1 < s2"
  let ?applied = "runPreview_resume s2 (PreviewOk html2 css2) s"
  have later: "runPreview_resume s1 (PreviewOk html1 css1) s' = s'"
    if "run env es ?applied = Some s'" for es s'
  proof -
    from run_serial_mono [OF that] have "s2 \<le> activePreviewSerial s'"
      by (simp add: runPreview_resume_frame active)
    with less show ?thesis by (intro stale_ok_discarded) simp
  qed
  have first: "runPreview_resume s1 (PreviewOk html1 css1) s = s"
    using active less by (intro stale_ok_discarded) simp
  have "runPreview_resume s1 (PreviewOk html1 css1) ?applied = ?applied"
    using later [of "[]" ?applied] by simp
  with first have orders:
    "runPreview_resume s2 (PreviewOk html2 css2) (runPreview_resume s1 (PreviewOk html1 css1) s)
       = runPreview_resume s1 (PreviewOk html1 css1) ?applied"
    by simp
  from current_ok_applied [of s html2 css2] later orders show ?thesis
    unfolding active by blast
qed

theorem last_preview_request_wins_witness:
  "activePreviewSerial (example_sys\<lparr>activePreviewSerial := 2\<rparr>) = 2 \<and> (1::nat) < 2
   \<and> run example_env [SchedulePreview False]
        (runPreview_resume 2 (PreviewOk (Some (js ''new'')) None)
           (example_sys\<lparr>activePreviewSerial := 2\<rparr>)) \<noteq> None
   \<and> previewOutput
        (runPreview_resume 1 (PreviewOk (Some (js ''old'')) None)
           (the (run example_env [SchedulePreview False]
              (runPreview_resume 2 (PreviewOk (Some (js ''new'')) None)
                 (example_sys\<lparr>activePreviewSerial := 2\<rparr>)))))
       = Some (js ''new'')"
proof -
  let ?s = "example_sys\<lparr>activePreviewSerial := 2\<rparr>"
  let ?applied = "runPreview_resume 2 (PreviewOk (Some (js ''new'')) None) ?s"
  have active: "activePreviewSerial ?s = 2" and less: "(1::nat) < 2" by simp_all
  note wins = last_preview_request_wins [OF active less,
      of "Some (js ''new'')" None example_env "Some (js ''old'')" None]
  have run: "run example_env [SchedulePreview False] ?applied
      = Some (schedulePreview False ?applied)"
    by simp
  from wins run have
    "runPreview_resume 1 (PreviewOk (Some (js ''old'')) None) (schedulePreview False ?applied)
       = schedulePreview False ?applied"
    by blast
  moreover have "previewOutput (schedulePreview False ?applied) = Some (js ''new'')"
    by (simp add: schedulePreview_def clearTimeout_def setTimeout_def runPreview_resume_def
        updateStatus_def example_sys_def Let_def)
  ultimately have "previewOutput
        (runPreview_resume 1 (PreviewOk (Some (js ''old'')) None)
           (the (run example_env [SchedulePreview False] ?applied))) = Some (js ''new'')"
    using run by simp
  with active less run show ?thesis by simp
qed

lemmas sys_simps =
  example_sys_def schedulePreview_def clearTimeout_def setTimeout_def elapse_def runPreview_def
  gatherTheme_def readBulletSequence_def readOrderedSequence_def ensureOrderedDigits_def
  ensure_loop.simps sanitizeOrderedBase_def DEFAULT_ORDERED_BASE_def parseNumberOr_def clamp_def
  updateStatus_def runPreview_resume_def preview_catch_def msg_preview_failed_def Let_def

text \<open>
  C2 fails on the code. The serial is compared only after a success body has been read; a
  response that is not ok, a rejected \<open>fetch\<close> and a body that does not parse go to the
  \<open>catch\<close> block whatever the serial. Here two previews are scheduled and sent one
  after the other (serials 1 and 2), the success response of request 2 is applied, and
  then request 1 fails with status 500: the active serial is 2 and the preview shows the
  markup of request 2, but the status line shows the error of request 1.
\<close>

theorem stale_error_response_updates_status:
  "map_option (\<lambda>s. (activePreviewSerial s, previewOutput s, previewStatus s))
     (run example_env
        [SchedulePreview True, Elapse 0, SchedulePreview True, Elapse 0,
         PreviewResponse 2 (PreviewOk (Some (js ''new'')) None)]
        example_sys)
     = Some (2, Some (js ''new''), Some (msg_applied, VIdle))
   \<and> map_option (\<lambda>s. (activePreviewSerial s, previewOutput s, previewStatus s))
       (run example_env
          [SchedulePreview True, Elapse 0, SchedulePreview True, Elapse 0,
           PreviewResponse 2 (PreviewOk (Some (js ''new'')) None),
           PreviewResponse 1 (PreviewNotOk 500 None)]
          example_sys)
     = Some (2, Some (js ''new''), Some (msg_preview_failed 500, VError))
   \<and> (msg_preview_failed 500, VError) \<noteq> (msg_applied, VIdle)"
  by (simp add: sys_simps eval_simps)

section \<open>Properties of the debounce timer\<close>

lemma timers_ok_fields:
  "pending_timers s' = pending_timers s \<Longrightarrow> previewTimer s' = previewTimer s \<Longrightarrow>
   next_timer_id s' = next_timer_id s \<Longrightarrow> timers_ok s' = timers_ok s"
  by (simp add: timers_ok_def)

lemma timers_ok_cleared:
  assumes "timers_ok s"
  shows "pending_timers (clearTimeout (previewTimer s) s) = []"
proof (cases "previewTimer s")
  case None
  with assms have "list_all (\<lambda>x. False) (pending_timers s)"
    by (simp add: timers_ok_def case_prod_unfold)
  then have "pending_timers s = []" by (cases "pending_timers s") simp_all
  with None show ?thesis by (simp add: clearTimeout_def)
next
  case (Some i)
  with assms have "\<forall>x\<in>set (pending_timers s). fst x = i"
    by (auto simp: timers_ok_def list_all_iff)
  then have "filter (\<lambda>(j, due). j \<noteq> i) (pending_timers s) = []"
    by (auto simp: filter_empty_conv)
  with Some show ?thesis by (simp add: clearTimeout_def)
qed

lemma schedulePreview_timers:
  assumes "timers_ok s"
  shows "pending_timers (schedulePreview immediate s)
           = [(next_timer_id s, clock s + (if immediate then 0 else 280))]"
    and "previewTimer (schedulePreview immediate s) = Some (next_timer_id s)"
    and "next_timer_id (schedulePreview immediate s) = next_timer_id s + 1"
    and "timers_ok (schedulePreview immediate s)"
proof -
  have cleared: "pending_timers (clearTimeout (previewTimer s) (s\<lparr>isPreviewDirty := True\<rparr>)) = []"
    using timers_ok_cleared [OF assms] by (simp add: clearTimeout_def split: option.splits)
  have rest: "next_timer_id (clearTimeout (previewTimer s) (s\<lparr>isPreviewDirty := True\<rparr>))
                = next_timer_id s"
    "clock (clearTimeout (previewTimer s) (s\<lparr>isPreviewDirty := True\<rparr>)) = clock s"
    by (simp_all add: clearTimeout_def split: option.splits)
  show a: "pending_timers (schedulePreview immediate s)
           = [(next_timer_id s, clock s + (if immediate then 0 else 280))]"
    and b: "previewTimer (schedulePreview immediate s) = Some (next_timer_id s)"
    and c: "next_timer_id (schedulePreview immediate s) = next_timer_id s + 1"
    using cleared rest by (simp_all add: schedulePreview_def setTimeout_def Let_def)
  show "timers_ok (schedulePreview immediate s)"
    unfolding timers_ok_def a b c by simp
qed

lemma step_timers_ok:
  assumes "timers_ok s" and "step env e s = Some s'"
  shows "timers_ok s'"
proof (cases e)
  case (Edit els)
  with assms show ?thesis by (auto simp: timers_ok_def)
next
  case (SchedulePreview immediate)
  with assms show ?thesis using schedulePreview_timers(4) by auto
next
  case (Elapse t)
  with assms(2) have "fire_timers env
       (sort_key snd (filter (\<lambda>(i, due). due \<le> t) (pending_timers s)))
       (s\<lparr>pending_timers := filter (\<lambda>(i, due). \<not> due \<le> t) (pending_timers s),
          clock := max t (clock s)\<rparr>) = Some s'"
    by (simp add: elapse_def)
  from fire_timers_frame [OF this]
  have "pending_timers s' = filter (\<lambda>(i, due). \<not> due \<le> t) (pending_timers s)"
    and "previewTimer s' = previewTimer s" and "next_timer_id s' = next_timer_id s"
    by simp_all
  with assms(1) show ?thesis
    by (auto simp: timers_ok_def list_all_iff distinct_map_filter)
next
  case (PreviewResponse serial outcome)
  with assms show ?thesis
    using timers_ok_fields [of "runPreview_resume serial outcome s" s]
    by (auto simp: runPreview_resume_frame)
next
  case DownloadClick
  with assms show ?thesis
    using timers_ok_fields [of s' s] downloadPdf_frame [of env s s']
    by (auto split: if_splits)
next
  case (PdfResponse overlay outcome)
  with assms show ?thesis
    using timers_ok_fields [of "downloadPdf_resume overlay outcome s" s]
    by (auto simp: downloadPdf_resume_frame)
qed

lemma run_timers_ok:
  "timers_ok s \<Longrightarrow> run env es s = Some s' \<Longrightarrow> timers_ok s'"
proof (induction es arbitrary: s)
  case Nil
  then show ?case by simp
next
  case (Cons e es)
  then obtain s1 where s1: "step env e s = Some s1" and rest: "run env es s1 = Some s'"
    by (auto simp: bind_eq_Some_conv)
  from step_timers_ok [OF Cons.prems(1) s1] rest show ?case by (rule Cons.IH)
qed

lemma debounce_run:
  assumes ok: "timers_ok s"
    and window: "clock s < t2" "t2 < clock s + (if immediate then 0 else 280)"
    and later: "t2 + (if immediate2 then 0 else 280) \<le> t3"
  shows "run env [SchedulePreview immediate, Edit e1, Elapse t2,
                  SchedulePreview immediate2, Edit e2, Elapse t3] s
         = runPreview env
             ((schedulePreview immediate2
                 ((schedulePreview immediate s)\<lparr>elements := e1, clock := t2\<rparr>))
              \<lparr>elements := e2, pending_timers := [], clock := t3\<rparr>)"
proof -
  let ?s1 = "schedulePreview immediate s"
  let ?s2 = "?s1\<lparr>elements := e1\<rparr>"
  let ?s3 = "?s1\<lparr>elements := e1, clock := t2\<rparr>"
  let ?s4 = "schedulePreview immediate2 ?s3"
  let ?s5 = "?s4\<lparr>elements := e2\<rparr>"
  note s1 = schedulePreview_timers [OF ok, of immediate]
  have clock1: "clock ?s1 = clock s" by (simp add: schedulePreview_frame)
  have e2: "elapse env t2 ?s2 = Some ?s3"
    using window s1(1) clock1 by (simp add: elapse_def max_def)
  have "timers_ok ?s3 = timers_ok ?s1"
    by (intro timers_ok_fields) simp_all
  with s1(4) have ok3: "timers_ok ?s3" by simp
  note s4 = schedulePreview_timers [OF ok3, of immediate2]
  have clock4: "clock ?s4 = t2" by (simp add: schedulePreview_frame)
  have nil: "fire_timers env [] = Some" by (rule ext) simp
  from later have "max t3 t2 = t3" by simp
  then have e3: "elapse env t3 ?s5 = runPreview env (?s5\<lparr>pending_timers := [], clock := t3\<rparr>)"
    using later s4(1) clock4 by (simp add: elapse_def nil)
  have "run env [] = Some" by (rule ext) simp
  with e2 e3 show ?thesis by simp
qed

text \<open>
  C8, as the code has it. In every state the page can reach from one with no pending
  timer, \<open>schedulePreview\<close> leaves exactly one pending timer, due 280 ms later (0 ms when
  immediate). When a second call follows at a time \<open>t2\<close> before the timer of the first
  is due, then once the second timer is due no timer is left pending, and on a page with
  a preview URL exactly one request has been issued since the first call, carrying the
  theme and markdown of the controls as they are when the timer fires; on a page without
  a preview URL none has been issued.
\<close>

theorem schedulePreview_debounce:
  "pending_timers s0 = [] \<Longrightarrow> run env history s0 = Some s \<Longrightarrow>
   pending_timers (schedulePreview immediate s)
     = [(next_timer_id s, clock s + (if immediate then 0 else 280))]
   \<and> (clock s < t2 \<and> t2 < clock s + (if immediate then 0 else 280)
        \<and> t2 + (if immediate2 then 0 else 280) \<le> t3 \<longrightarrow>
       (\<exists>s' th els'.
          run env [SchedulePreview immediate, Edit e1, Elapse t2,
                   SchedulePreview immediate2, Edit e2, Elapse t3] s = Some s'
          \<and> gatherTheme env e2 = Some (th, els')
          \<and> pending_timers s' = []
          \<and> fetches s' = fetches s @
               (if urls_preview env then
                  [PreviewFetch (activePreviewSerial s + 1)
                     \<lparr>body_markdown = (case el_markdown e2 of None \<Rightarrow> [] | Some v \<Rightarrow> v),
                      body_theme = th, body_title = title th\<rparr>]
                else [])))"
proof -
  assume idle: "pending_timers s0 = []" and reach: "run env history s0 = Some s"
  from idle have "timers_ok s0" by (simp add: timers_ok_def)
  then have ok: "timers_ok s" using reach by (rule run_timers_ok)
  have single: "pending_timers (schedulePreview immediate s)
     = [(next_timer_id s, clock s + (if immediate then 0 else 280))]"
    using ok by (rule schedulePreview_timers)
  have burst: "\<exists>s' th els'.
          run env [SchedulePreview immediate, Edit e1, Elapse t2,
                   SchedulePreview immediate2, Edit e2, Elapse t3] s = Some s'
          \<and> gatherTheme env e2 = Some (th, els')
          \<and> pending_timers s' = []
          \<and> fetches s' = fetches s @
               (if urls_preview env then
                  [PreviewFetch (activePreviewSerial s + 1)
                     \<lparr>body_markdown = (case el_markdown e2 of None \<Rightarrow> [] | Some v \<Rightarrow> v),
                      body_theme = th, body_title = title th\<rparr>]
                else [])"
    if window: "clock s < t2" "t2 < clock s + (if immediate then 0 else 280)"
      and later: "t2 + (if immediate2 then 0 else 280) \<le> t3"
  proof -
    let ?fired = "(schedulePreview immediate2
                 ((schedulePreview immediate s)\<lparr>elements := e1, clock := t2\<rparr>))
              \<lparr>elements := e2, pending_timers := [], clock := t3\<rparr>"
    note run = debounce_run [OF ok window later, of env e1 e2]
    obtain th els' where g: "gatherTheme env e2 = Some (th, els')"
      and md: "el_markdown els' = el_markdown e2"
      using gatherTheme_returns by blast
    have fields: "elements ?fired = e2" "fetches ?fired = fetches s"
      "activePreviewSerial ?fired = activePreviewSerial s" "pending_timers ?fired = []"
      by (simp_all add: schedulePreview_frame)
    show ?thesis
    proof (cases "urls_preview env")
      case True
      from g fields(1) have "gatherTheme env (elements ?fired) = Some (th, els')" by simp
      from runPreview_on [OF True this] run g md fields True show ?thesis
        by (intro exI [of _ "the (runPreview env ?fired)"] exI [of _ th] exI [of _ els']) simp
    next
      case False
      with runPreview_off [of env ?fired] run g fields show ?thesis
        by (intro exI [of _ ?fired] exI [of _ th] exI [of _ els']) simp
    qed
  qed
  from single burst show ?thesis by blast
qed

theorem schedulePreview_debounce_witness:
  "pending_timers example_sys = [] \<and> run example_env [] example_sys = Some example_sys
   \<and> clock example_sys < 100 \<and> 100 < clock example_sys + (if False then 0 else 280)
   \<and> (100::nat) + (if False then 0 else 280) \<le> 380
   \<and> urls_preview example_env
   \<and> pending_timers (schedulePreview False example_sys) = [(1, 280)]
   \<and> map_option (\<lambda>s. length (fetches s))
        (run example_env
           [SchedulePreview False, Edit example_elements, Elapse 100,
            SchedulePreview False, Edit (example_elements\<lparr>el_markdown := Some (js ''# Bye'')\<rparr>),
            Elapse 380]
           example_sys) = Some 1"
proof -
  have idle: "pending_timers example_sys = []"
    and reach: "run example_env [] example_sys = Some example_sys"
    and window: "clock example_sys < 100 \<and> 100 < clock example_sys + (if False then 0 else 280)
        \<and> (100::nat) + (if False then 0 else 280) \<le> 380"
    and url: "urls_preview example_env"
    by (simp_all add: example_sys_def example_env_def)
  note debounce = schedulePreview_debounce [OF idle reach, of False 100 False 380
      example_elements "example_elements\<lparr>el_markdown := Some (js ''# Bye'')\<rparr>"]
  from debounce have single: "pending_timers (schedulePreview False example_sys) = [(1, 280)]"
    by (simp add: example_sys_def)
  from debounce window url obtain s' where
    "run example_env
           [SchedulePreview False, Edit example_elements, Elapse 100,
            SchedulePreview False, Edit (example_elements\<lparr>el_markdown := Some (js ''# Bye'')\<rparr>),
            Elapse 380]
           example_sys = Some s'"
    and "length (fetches s') = 1"
    by (auto simp: example_sys_def)
  then have count: "map_option (\<lambda>s. length (fetches s))
        (run example_env
           [SchedulePreview False, Edit example_elements, Elapse 100,
            SchedulePreview False, Edit (example_elements\<lparr>el_markdown := Some (js ''# Bye'')\<rparr>),
            Elapse 380]
           example_sys) = Some 1"
    by simp
  from idle reach window url single count show ?thesis by (intro conjI) simp_all
qed

text \<open>
  The claim C8 as stated fails on a page without a preview URL: two calls of
  \<open>schedulePreview\<close> 100 ms apart, and no request is ever issued.
\<close>

theorem schedulePreview_no_url_counterexample:
  "map_option fetches
     (run (example_env\<lparr>urls_preview := False\<rparr>)
        [SchedulePreview False, Elapse 100, SchedulePreview False, Elapse 380, Elapse 1000]
        example_sys) = Some []"
  by (simp add: sys_simps)

section \<open>Properties of the export\<close>












end
